theory Spec2Isabelle
  imports Complex_Main
begin

section \<open>Detection of regions of interest on 1D signals (maad/rois/rois_1d.py)\<close>

text \<open>
  The module holds four functions: \<open>sinc\<close>, \<open>corresp_onset_offset\<close>,
  \<open>energy_windowed\<close> and \<open>find_rois_cwt\<close>. Each is embedded below under its own name.

  Conventions of the embedding.
  \<^item> A Python or numpy float is a \<open>real\<close>: comparisons and arithmetic are exact, NaN and
    infinities do not occur. Python integers are \<open>int\<close>, lengths and indices \<open>nat\<close>.
  \<^item> A one-dimensional ndarray is a list.
  \<^item> Every \<open>raise\<close> the code can reach is a value \<open>Inl e\<close> of the result type
    \<open>py_exn + 'a\<close>; a normal return is \<open>Inr v\<close>.
  \<^item> The calls into scipy.signal (\<open>kaiserord\<close>, \<open>firwin\<close>, \<open>lfilter\<close>, \<open>cwt\<close>) are not
    part of the module; they are fields of a record \<open>signal_lib\<close> that the embedded
    functions take as their first argument.
\<close>

subsection \<open>Exceptions\<close>

text \<open>
  The exceptions of Python and numpy that the module can meet. \<open>InvalidBandError\<close> is
  the error class that the specification names for the band filter; the module defines
  no exception class, and no statement of it raises this one.
\<close>

datatype py_exn =
    IndexError
  | ValueError
  | ZeroDivisionError
  | OverflowError
  | TypeError
  | InvalidBandError

subsection \<open>numpy operations on one-dimensional arrays\<close>

text \<open>\<open>a.astype(int)\<close> on a boolean array: \<open>False\<close> is 0, \<open>True\<close> is 1.\<close>

definition astype_int :: "bool list \<Rightarrow> int list" where
  "astype_int a = map (\<lambda>b. if b then 1 else 0) a"

text \<open>\<open>np.diff(a)\<close>: \<open>out[i] = a[i+1] - a[i]\<close>, one element shorter than \<open>a\<close>
  (empty for an empty \<open>a\<close>).\<close>

definition np_diff :: "int list \<Rightarrow> int list" where
  "np_diff a = map (\<lambda>i. a ! Suc i - a ! i) [0..<length a - 1]"

text \<open>\<open>np.where(c)\<close> on a boolean array: the indices of the true entries, ascending.\<close>

definition np_where :: "bool list \<Rightarrow> nat list" where
  "np_where c = filter (\<lambda>i. c ! i) [0..<length c]"

text \<open>\<open>t[idx]\<close> with an index array: IndexError when an index is out of bounds.\<close>

definition take_at :: "'a list \<Rightarrow> nat list \<Rightarrow> py_exn + 'a list" where
  "take_at t idx =
     (if list_all (\<lambda>i. i < length t) idx then Inr (map (\<lambda>i. t ! i) idx) else Inl IndexError)"

text \<open>
  \<open>np.pad(a, (before, after), 'reflect')\<close>. The sample at position \<open>p\<close> relative to
  the start of \<open>a\<close> (negative in front of it, \<open>\<ge> len(a)\<close> behind it) is the sample of
  \<open>a\<close> at the mirror image of \<open>p\<close>: the array is read back and forth without repeating
  its end points, so with period \<open>2 * (len(a) - 1)\<close>; numpy fills a pad longer than the
  array by reflecting repeatedly, which is the same sequence. An array of one sample
  is extended by that sample. numpy raises ValueError on a negative pad width, and on a
  positive one when \<open>a\<close> is empty.
\<close>

definition reflect_index :: "nat \<Rightarrow> int \<Rightarrow> nat" where
  "reflect_index n p =
     (if n \<le> 1 then 0
      else let period = 2 * (int n - 1); m = p mod period
           in nat (if m < int n then m else period - m))"

definition np_pad_reflect :: "'a list \<Rightarrow> int \<Rightarrow> int \<Rightarrow> py_exn + 'a list" where
  "np_pad_reflect a before after =
     (if before < 0 \<or> after < 0 then Inl ValueError
      else if a = [] \<and> (0 < before \<or> 0 < after) then Inl ValueError
      else Inr (map (\<lambda>j. a ! reflect_index (length a) (int j - before))
                  [0..<nat (before + int (length a) + after)]))"

text \<open>\<open>int(x)\<close> on a float: truncation towards zero.\<close>

definition py_int :: "real \<Rightarrow> int" where
  "py_int x = (if 0 \<le> x then \<lfloor>x\<rfloor> else \<lceil>x\<rceil>)"

text \<open>
  \<open>np.reshape(a, (r, c))\<close>: row \<open>k\<close> holds \<open>a[k*c : (k+1)*c]\<close>; ValueError when
  \<open>r * c\<close> is not the size of \<open>a\<close>. (A dimension of -1 would be inferred by numpy; the
  module only passes the quotient of a length by a positive window length.)
\<close>

definition np_reshape :: "'a list \<Rightarrow> int \<Rightarrow> int \<Rightarrow> py_exn + 'a list list" where
  "np_reshape a r c =
     (if r < 0 \<or> c < 0 \<or> r * c \<noteq> int (length a) then Inl ValueError
      else Inr (map (\<lambda>k. take (nat c) (drop (k * nat c) a)) [0..<nat r]))"

text \<open>\<open>np.mean\<close> of one row.\<close>

definition np_mean :: "real list \<Rightarrow> real" where
  "np_mean row = sum_list row / real (length row)"

subsection \<open>corresp_onset_offset\<close>

text \<open>
  \<open>onset[0]\<close>, \<open>offset[0]\<close>, \<open>onset[-1]\<close> and \<open>offset[-1]\<close> raise IndexError on an
  empty array. The second test reads \<open>onset\<close> after the first branch may have rebound
  it: \<open>np.insert(onset, 0, tmin)\<close> puts \<open>tmin\<close> in front, \<open>np.append(offset, tmax)\<close>
  puts \<open>tmax\<close> behind.
\<close>

definition corresp_onset_offset ::
  "real list \<Rightarrow> real list \<Rightarrow> real \<Rightarrow> real \<Rightarrow> py_exn + (real list \<times> real list)" where
  "corresp_onset_offset onset offset tmin tmax =
     (if onset = [] \<or> offset = [] then Inl IndexError
      else
        let onset1 = (if hd onset > hd offset then tmin # onset else onset);
            offset1 = (if last onset1 > last offset then offset @ [tmax] else offset)
        in Inr (onset1, offset1))"

subsection \<open>energy_windowed\<close>

text \<open>
  \<open>wl\<close> is the integer that \<open>find_rois_cwt\<close> passes (\<open>int(wl)\<close>); \<open>len(s) % wl\<close> raises
  ZeroDivisionError for \<open>wl = 0\<close>, and Python's \<open>%\<close> takes the sign of the divisor, as
  \<open>mod\<close> on \<open>int\<close> does. \<open>fs\<close> is a Python number: dividing by a zero \<open>fs\<close> raises
  ZeroDivisionError in \<open>wl*0.5/fs\<close>. The default \<open>fs=None\<close> is outside the type.
\<close>

definition energy_windowed :: "real list \<Rightarrow> int \<Rightarrow> real \<Rightarrow> py_exn + (real list \<times> real list)" where
  "energy_windowed s wl fs =
     (if wl = 0 then Inl ZeroDivisionError
      else case np_pad_reflect s 0 (wl - int (length s) mod wl) of
        Inl e \<Rightarrow> Inl e
      | Inr s_pad \<Rightarrow>
          let s_aux = map (\<lambda>x. x ^ 2) s_pad in
          (case np_reshape s_aux (py_int (real (length s_aux) / real_of_int wl)) wl of
             Inl e \<Rightarrow> Inl e
           | Inr rows \<Rightarrow>
               let s_rms = map np_mean rows in
               if fs = 0 then Inl ZeroDivisionError
               else Inr (map (\<lambda>k. real k * real_of_int wl / fs + real_of_int wl * 0.5 / fs)
                           [0..<length s_rms],
                         s_rms)))"

subsection \<open>sinc\<close>

text \<open>
  The functions of scipy.signal that the module calls, with the arguments in the order
  the module passes them:
  \<^item> \<open>kaiserord ripple width\<close> returns \<open>(numtaps, beta)\<close>;
  \<^item> \<open>firwin numtaps cutoff beta scale nyq pass_zero\<close>, for the call
    \<open>firwin(numtaps, cutoff, window=('kaiser', beta), scale=..., nyq=..., pass_zero=...)\<close>;
  \<^item> \<open>lfilter b a x\<close>;
  \<^item> \<open>cwt_ricker data width\<close>, for \<open>signal.cwt(data, signal.ricker, [width])[0]\<close>.
  Each may raise.
\<close>

record signal_lib =
  kaiserord :: "real \<Rightarrow> real \<Rightarrow> py_exn + (int \<times> real)"
  firwin :: "int \<Rightarrow> real \<times> real \<Rightarrow> real \<Rightarrow> bool \<Rightarrow> real \<Rightarrow> bool \<Rightarrow> py_exn + real list"
  lfilter :: "real list \<Rightarrow> real \<Rightarrow> real list \<Rightarrow> py_exn + real list"
  cwt_ricker :: "real list \<Rightarrow> int \<Rightarrow> py_exn + real list"

text \<open>
  The expression statement \<open>np.ceil(numtaps-1) // 2 * 2 + 1\<close>: \<open>np.ceil\<close> of an
  integer, floor division by 2, times 2, plus 1. It raises nothing.
\<close>

definition nearest_odd :: "int \<Rightarrow> real" where
  "nearest_odd numtaps =
     real_of_int \<lfloor>real_of_int \<lceil>real_of_int (numtaps - 1)\<rceil> / 2\<rfloor> * 2 + 1"

text \<open>
  \<open>cutoff\<close> is the pair \<open>(cutoff[0], cutoff[1])\<close>. \<open>width/(0.5*fs)\<close> divides Python
  floats: ZeroDivisionError when \<open>0.5*fs\<close> is zero. The value of the expression
  statement is bound to a name that nothing reads.
\<close>

definition sinc ::
  "signal_lib \<Rightarrow> real list \<Rightarrow> real \<times> real \<Rightarrow> real \<Rightarrow> real \<Rightarrow> real \<Rightarrow> bool \<Rightarrow> py_exn + real list" where
  "sinc lib s cutoff fs atten transition_bw bandpass =
     (let width = (snd cutoff - fst cutoff) * transition_bw in
      if 0.5 * fs = 0 then Inl ZeroDivisionError
      else case kaiserord lib atten (width / (0.5 * fs)) of
        Inl e \<Rightarrow> Inl e
      | Inr (numtaps, beta) \<Rightarrow>
          let discarded = nearest_odd numtaps in
          (case firwin lib numtaps cutoff beta False (0.5 * fs) (\<not> bandpass) of
             Inl e \<Rightarrow> Inl e
           | Inr taps \<Rightarrow> lfilter lib taps 1 s))"

text \<open>The variant of \<open>sinc\<close> with the expression statement of line 37 removed.\<close>

definition sinc_without_rounding ::
  "signal_lib \<Rightarrow> real list \<Rightarrow> real \<times> real \<Rightarrow> real \<Rightarrow> real \<Rightarrow> real \<Rightarrow> bool \<Rightarrow> py_exn + real list" where
  "sinc_without_rounding lib s cutoff fs atten transition_bw bandpass =
     (let width = (snd cutoff - fst cutoff) * transition_bw in
      if 0.5 * fs = 0 then Inl ZeroDivisionError
      else case kaiserord lib atten (width / (0.5 * fs)) of
        Inl e \<Rightarrow> Inl e
      | Inr (numtaps, beta) \<Rightarrow>
          (case firwin lib numtaps cutoff beta False (0.5 * fs) (\<not> bandpass) of
             Inl e \<Rightarrow> Inl e
           | Inr taps \<Rightarrow> lfilter lib taps 1 s))"

subsection \<open>find_rois_cwt\<close>

text \<open>Python's \<open>round\<close> to an integer: to the nearest, a tie to the even neighbour.\<close>

definition py_round :: "real \<Rightarrow> int" where
  "py_round x =
     (let f = \<lfloor>x\<rfloor>; d = x - real_of_int f
      in if d < 1 / 2 then f else if 1 / 2 < d then f + 1 else if even f then f else f + 1)"

text \<open>\<open>np.round(x, 5)\<close>: five decimals.\<close>

definition np_round5 :: "real \<Rightarrow> real" where
  "np_round5 x = real_of_int (py_round (x * 10 ^ 5)) / 10 ^ 5"

text \<open>\<open>a[i:j]\<close>: a negative bound counts from the end, both are clipped to the array.\<close>

definition py_slice :: "'a list \<Rightarrow> int \<Rightarrow> int \<Rightarrow> 'a list" where
  "py_slice a i j =
     (let n = int (length a);
          clip = (\<lambda>k. if k < 0 then max 0 (n + k) else min k n)
      in drop (nat (clip i)) (take (nat (clip j)) a))"

text \<open>
  \<open>int(wl)\<close> for \<open>wl = 2**np.floor(np.log2(x))\<close> with \<open>x = tlen*fs*0.05\<close>. numpy
  gives \<open>-inf\<close> for \<open>log2(0)\<close>, hence \<open>wl = 0.0\<close>, and NaN for a negative \<open>x\<close>, on which
  \<open>int\<close> raises ValueError.
\<close>

definition window_length :: "real \<Rightarrow> py_exn + real" where
  "window_length x =
     (if x < 0 then Inl ValueError
      else if x = 0 then Inr 0
      else Inr (2 powr real_of_int \<lfloor>log 2 x\<rfloor>))"

text \<open>
  Lines 137 to 147: the filtered signal, its windowed energy and the wavelet smoothing;
  the result is the time grid \<open>t\<close> and the smoothed series \<open>s_cwt\<close>.
\<close>

definition find_rois_cwt_smooth ::
  "signal_lib \<Rightarrow> real list \<Rightarrow> real \<Rightarrow> real \<times> real \<Rightarrow> real \<Rightarrow> py_exn + (real list \<times> real list)" where
  "find_rois_cwt_smooth lib s fs flims tlen =
     (case sinc lib s flims fs 80 0.8 True of
        Inl e \<Rightarrow> Inl e
      | Inr s_filt \<Rightarrow>
     (case window_length (tlen * fs * 0.05) of
        Inl e \<Rightarrow> Inl e
      | Inr wl \<Rightarrow>
     (case energy_windowed s_filt (py_int wl) fs of
        Inl e \<Rightarrow> Inl e
      | Inr (t, s_rms) \<Rightarrow>
          let cwt_width = py_round (tlen * fs / wl / 2);
              npad = 5
          in
     (case np_pad_reflect s_rms (cwt_width * npad) (cwt_width * npad) of
        Inl e \<Rightarrow> Inl e
      | Inr s_rms_pad \<Rightarrow>
     (case cwt_ricker lib s_rms_pad cwt_width of
        Inl e \<Rightarrow> Inl e
      | Inr row \<Rightarrow>
          Inr (t, py_slice row (cwt_width * npad) (int (length row) - cwt_width * npad)))))))"

text \<open>Line 149: the mask, a strict comparison.\<close>

definition segments_bin :: "real list \<Rightarrow> real \<Rightarrow> bool list" where
  "segments_bin s_cwt th = map (\<lambda>x. th < x) s_cwt"

text \<open>
  Lines 150 and 151: \<open>t[np.where(np.diff(segments_bin.astype(int)) > 0)] + t[0]\<close> and
  the same with \<open>< 0\<close>. The index array is applied first, then \<open>t[0]\<close> is read.
\<close>

definition onset_times :: "real list \<Rightarrow> bool list \<Rightarrow> py_exn + real list" where
  "onset_times t seg =
     (case take_at t (np_where (map (\<lambda>d. 0 < d) (np_diff (astype_int seg)))) of
        Inl e \<Rightarrow> Inl e
      | Inr picked \<Rightarrow>
          (case t of [] \<Rightarrow> Inl IndexError | t0 # rest \<Rightarrow> Inr (map (\<lambda>x. x + t0) picked)))"

definition offset_times :: "real list \<Rightarrow> bool list \<Rightarrow> py_exn + real list" where
  "offset_times t seg =
     (case take_at t (np_where (map (\<lambda>d. d < 0) (np_diff (astype_int seg)))) of
        Inl e \<Rightarrow> Inl e
      | Inr picked \<Rightarrow>
          (case t of [] \<Rightarrow> Inl IndexError | t0 # rest \<Rightarrow> Inr (map (\<lambda>x. x + t0) picked)))"

text \<open>
  The returned table and what the call does besides returning it. \<open>DataFrame(data=None)\<close>
  has no column and no row. Writing the file and drawing the figure are recorded, in
  order; a failure of the file system or of matplotlib is outside the model.
\<close>

datatype dataframe = DataFrame (columns: "string list") (table_rows: "real list list")

datatype effect =
    Print string
  | ToCsv string bool dataframe
  | PlotShow

text \<open>
  Lines 152 to 199. \<open>savefilename\<close> is the keyword argument of that name, if given.
  \<open>np.transpose\<close> of the four columns needs them of one length; otherwise building
  the table raises ValueError. \<open>len(s)/fs\<close> raises ZeroDivisionError for a zero \<open>fs\<close>.
\<close>

definition find_rois_cwt_detect ::
  "real list \<Rightarrow> real list \<Rightarrow> real list \<Rightarrow> real \<Rightarrow> real \<times> real \<Rightarrow> real \<Rightarrow> bool \<Rightarrow> bool \<Rightarrow> string option
     \<Rightarrow> py_exn + (dataframe \<times> effect list)" where
  "find_rois_cwt_detect t s_cwt s fs flims th display save_df savefilename =
     (let seg = segments_bin s_cwt th;
          fname = (case savefilename of None \<Rightarrow> ''rois.csv'' | Some f \<Rightarrow> f);
          shown = (if display then [PlotShow] else [])
      in
      case onset_times t seg of
        Inl e \<Rightarrow> Inl e
      | Inr onset \<Rightarrow>
     (case offset_times t seg of
        Inl e \<Rightarrow> Inl e
      | Inr offset \<Rightarrow>
          if onset = [] \<or> offset = [] then
            let df = DataFrame [] []
            in Inr (df, Print ''Warning: No detection found''
                        # (if save_df then [ToCsv fname False df] else []) @ shown)
          else if fs = 0 then Inl ZeroDivisionError
          else
            (case corresp_onset_offset onset offset 0 (real (length s) / fs) of
               Inl e \<Rightarrow> Inl e
             | Inr (onset1, offset1) \<Rightarrow>
                 if length onset1 \<noteq> length offset1 then Inl ValueError
                 else
                   let df = DataFrame [''onset'', ''fmin'', ''offset'', ''fmax'']
                              (map (\<lambda>(a, b). [np_round5 a, fst flims, np_round5 b, snd flims])
                                 (zip onset1 offset1))
                   in Inr (df, (if save_df then [ToCsv fname True df] else []) @ shown))))"

definition find_rois_cwt ::
  "signal_lib \<Rightarrow> real list \<Rightarrow> real \<Rightarrow> real \<times> real \<Rightarrow> real \<Rightarrow> real \<Rightarrow> bool \<Rightarrow> bool \<Rightarrow> string option
     \<Rightarrow> py_exn + (dataframe \<times> effect list)" where
  "find_rois_cwt lib s fs flims tlen th display save_df savefilename =
     (case find_rois_cwt_smooth lib s fs flims tlen of
        Inl e \<Rightarrow> Inl e
      | Inr (t, s_cwt) \<Rightarrow> find_rois_cwt_detect t s_cwt s fs flims th display save_df savefilename)"

subsection \<open>Transitions of a mask, and interleaved sequences\<close>

text \<open>
  The indices of the false-to-true and of the true-to-false steps of a mask, by recursion
  on the mask; \<open>k\<close> is the index of its first element. They are shown below to be the
  index arrays that lines 150 and 151 compute.
\<close>

fun rises :: "nat \<Rightarrow> bool list \<Rightarrow> nat list" where
  "rises k (a # b # m) = (if \<not> a \<and> b then [k] else []) @ rises (Suc k) (b # m)"
| "rises k m = []"

fun falls :: "nat \<Rightarrow> bool list \<Rightarrow> nat list" where
  "falls k (a # b # m) = (if a \<and> \<not> b then [k] else []) @ falls (Suc k) (b # m)"
| "falls k m = []"

text \<open>
  \<open>chain xs ys\<close>: the two sequences interleave strictly, starting with \<open>xs\<close>:
  \<open>x\<^sub>0 < y\<^sub>0 < x\<^sub>1 < y\<^sub>1 < \<dots>\<close>, and \<open>xs\<close> is as long as \<open>ys\<close> or one longer.
\<close>

function chain :: "real list \<Rightarrow> real list \<Rightarrow> bool" where
  "chain [] ys = (ys = [])"
| "chain (x # xs) ys = ((case ys of [] \<Rightarrow> True | y # rest \<Rightarrow> x < y) \<and> chain ys xs)"
  by pat_completeness auto
termination
  by (relation "measure (\<lambda>(xs, ys). length xs + length ys)") auto

subsection \<open>The edge extraction in the words of the specification\<close>

text \<open>
  The integer encoding of the mask at index \<open>i\<close>, and the times \<open>t[i] + t[0]\<close> at the
  indices \<open>i\<close> where its forward difference equals \<open>step\<close>.
\<close>

definition mask_encoding :: "real list \<Rightarrow> real \<Rightarrow> nat \<Rightarrow> int" where
  "mask_encoding s_cwt th i = (if th < s_cwt ! i then 1 else 0)"

definition transition_times :: "real list \<Rightarrow> real list \<Rightarrow> real \<Rightarrow> int \<Rightarrow> real list" where
  "transition_times t s_cwt th step =
     map (\<lambda>i. t ! i + t ! 0)
       (filter (\<lambda>i. mask_encoding s_cwt th (Suc i) - mask_encoding s_cwt th i = step)
          [0..<length s_cwt - 1])"

subsection \<open>A stand-in for scipy.signal\<close>

text \<open>
  A library on which the embedded functions can be run: \<open>kaiserord\<close> fails on a zero
  width, as the division in its formula does; \<open>firwin\<close> rejects with ValueError a band
  that is not \<open>0 < low < high < nyq\<close>; the filter returns its input and the wavelet
  transform its data. The numbers it returns are placeholders.
\<close>

definition stand_in_lib :: signal_lib where
  "stand_in_lib =
     \<lparr> kaiserord = (\<lambda>ripple width. if width = 0 then Inl ZeroDivisionError else Inr (1, 0)),
       firwin = (\<lambda>numtaps cutoff beta scale nyq pass_zero.
                   if 0 < fst cutoff \<and> fst cutoff < snd cutoff \<and> snd cutoff < nyq
                   then Inr [1] else Inl ValueError),
       lfilter = (\<lambda>b a x. Inr x),
       cwt_ricker = (\<lambda>data width. Inr data) \<rparr>"

section \<open>Boundary reconciliation\<close>

text \<open>
  C5. On non-empty sequences \<open>corresp_onset_offset\<close> puts \<open>tmin\<close> in front of the
  onsets exactly when the first onset is greater than the first offset, appends
  \<open>tmax\<close> to the offsets exactly when the last onset is greater than the last offset,
  and changes nothing else.
\<close>

theorem corresp_onset_offset_synthetic:
  assumes "onset \<noteq> []" and "offset \<noteq> []"
  shows "corresp_onset_offset onset offset tmin tmax =
           Inr (if hd offset < hd onset then tmin # onset else onset,
                if last offset < last onset then offset @ [tmax] else offset)"
  using assms by (simp add: corresp_onset_offset_def)

theorem corresp_onset_offset_synthetic_witness:
  "corresp_onset_offset [4, 9] [2, 6] 0 10 = Inr ([0, 4, 9], [2, 6, 10])
   \<and> corresp_onset_offset [1, 5] [3, 7] 0 10 = Inr ([1, 5], [3, 7])"
  using corresp_onset_offset_synthetic [of "[4, 9]" "[2, 6]" 0 10]
        corresp_onset_offset_synthetic [of "[1, 5]" "[3, 7]" 0 10]
  by simp

section \<open>Windowed energy\<close>

lemma tail_pad_bounds:
  fixes wl n :: int
  assumes "0 < wl"
  shows "0 < wl - n mod wl" and "wl - n mod wl \<le> wl"
  using assms by (simp_all add: pos_mod_bound)

lemma tail_pad_dvd:
  fixes wl n :: int
  shows "wl dvd (n + (wl - n mod wl))"
proof -
  have "n + (wl - n mod wl) = wl * (n div wl + 1)"
    by (simp add: algebra_simps minus_mod_eq_mult_div [symmetric])
  then show ?thesis by simp
qed

lemma length_np_pad_reflect:
  assumes "np_pad_reflect a before after = Inr p"
  shows "length p = nat (before + int (length a) + after)"
  using assms by (auto simp: np_pad_reflect_def split: if_splits)

lemma np_pad_reflect_defined:
  assumes "a \<noteq> []" and "0 \<le> before" and "0 \<le> after"
  shows "\<exists>p. np_pad_reflect a before after = Inr p"
  using assms by (simp add: np_pad_reflect_def)

lemma sum_list_window:
  fixes xs :: "real list"
  assumes "k * c + c \<le> length xs"
  shows "sum_list (take c (drop (k * c) xs)) = (\<Sum>i<c. xs ! (k * c + i))"
proof -
  have len: "length (take c (drop (k * c) xs)) = c" using assms by simp
  have "sum_list (take c (drop (k * c) xs)) = (\<Sum>i = 0..<c. take c (drop (k * c) xs) ! i)"
    using sum_list_sum_nth [of "take c (drop (k * c) xs)"] len by simp
  also have "\<dots> = (\<Sum>i = 0..<c. xs ! (k * c + i))"
    using assms by (intro sum.cong) auto
  finally show ?thesis by (simp add: lessThan_atLeast0)
qed

lemma py_int_quotient:
  assumes "0 < wl"
  shows "py_int (real n / real_of_int wl) = int n div wl"
proof -
  have "real n / real_of_int wl = real_of_int (int n) / real_of_int wl" by simp
  moreover have "0 \<le> real_of_int (int n) / real_of_int wl" using assms by simp
  ultimately show ?thesis
    unfolding py_int_def using floor_divide_of_int_eq [of "int n" wl, where ?'a = real] by simp
qed

lemma np_reshape_rows:
  assumes "0 < c" and "int (length a) = r * c"
  shows "np_reshape a r c = Inr (map (\<lambda>k. take (nat c) (drop (k * nat c) a)) [0..<nat r])"
proof -
  have "0 \<le> r" using assms
    by (metis of_nat_0_le_iff zero_le_mult_iff not_less order_less_imp_le)
  then show ?thesis using assms by (simp add: np_reshape_def)
qed

text \<open>
  When the length of the signal is a multiple of a positive \<open>wl\<close>, the pad width
  computed on line 96 is \<open>wl\<close>.
\<close>

lemma energy_windowed_pad_amount:
  assumes "0 < wl" and "wl dvd int (length s)"
  shows "wl - int (length s) mod wl = wl"
  using assms by (simp add: dvd_eq_mod_eq_0)

text \<open>
  C7. For a non-empty signal, a positive window length and a non-zero sampling rate,
  \<open>energy_windowed\<close> returns; it yields one value per window of \<open>wl\<close> consecutive samples
  of the padded signal, the mean of the squares of the samples of that window, and the time
  stamp of window \<open>k\<close> is \<open>k * wl / fs + 0.5 * wl / fs\<close>.
\<close>

theorem energy_windowed_mean_square:
  assumes "s \<noteq> []" and "0 < wl" and "fs \<noteq> 0"
  shows "\<exists>s_pad time s_rms.
           np_pad_reflect s 0 (wl - int (length s) mod wl) = Inr s_pad
         \<and> energy_windowed s wl fs = Inr (time, s_rms)
         \<and> int (length s_pad) = int (length s_rms) * wl
         \<and> length time = length s_rms
         \<and> (\<forall>k<length s_rms.
               s_rms ! k = (\<Sum>i<nat wl. (s_pad ! (k * nat wl + i)) ^ 2) / real_of_int wl
             \<and> time ! k = real k * real_of_int wl / fs + 0.5 * real_of_int wl / fs)"
proof -
  define p where "p = wl - int (length s) mod wl"
  have p_pos: "0 < p" using tail_pad_bounds(1) [OF assms(2)] by (simp add: p_def)
  obtain s_pad where pad: "np_pad_reflect s 0 p = Inr s_pad"
    using np_pad_reflect_defined [OF assms(1), of 0 p] p_pos by auto
  have len_pad: "int (length s_pad) = int (length s) + p"
    using length_np_pad_reflect [OF pad] p_pos by simp
  define r where "r = int (length s_pad) div wl"
  have "wl dvd int (length s_pad)"
    using tail_pad_dvd [of wl "int (length s)"] by (simp add: len_pad p_def)
  then have rc: "int (length s_pad) = r * wl" by (simp add: r_def)
  have r_nonneg: "0 \<le> r" using assms(2) by (simp add: r_def pos_imp_zdiv_nonneg_iff)
  define s_aux where "s_aux = map (\<lambda>x. x ^ 2) s_pad"
  define rows where "rows = map (\<lambda>k. take (nat wl) (drop (k * nat wl) s_aux)) [0..<nat r]"
  define s_rms where "s_rms = map np_mean rows"
  define time where
    "time = map (\<lambda>k. real k * real_of_int wl / fs + real_of_int wl * 0.5 / fs) [0..<length s_rms]"
  have quot: "py_int (real (length s_aux) / real_of_int wl) = r"
    using py_int_quotient [OF assms(2), of "length s_aux"] by (simp add: s_aux_def r_def)
  have resh: "np_reshape s_aux r wl = Inr rows"
    using np_reshape_rows [OF assms(2), of s_aux r] rc by (simp add: s_aux_def rows_def)
  have run: "energy_windowed s wl fs = Inr (time, s_rms)"
    using assms(2,3) pad quot resh
    by (simp add: energy_windowed_def p_def [symmetric] s_aux_def [symmetric]
        s_rms_def time_def Let_def)
  have len_rms: "length s_rms = nat r" by (simp add: s_rms_def rows_def)
  have count: "int (length s_pad) = int (length s_rms) * wl"
    using rc r_nonneg by (simp add: len_rms)
  have vals: "s_rms ! k = (\<Sum>i<nat wl. (s_pad ! (k * nat wl + i)) ^ 2) / real_of_int wl
            \<and> time ! k = real k * real_of_int wl / fs + 0.5 * real_of_int wl / fs"
    if k: "k < length s_rms" for k
  proof -
    have wl_nat: "int (nat wl) = wl" using assms(2) by simp
    have "int k + 1 \<le> r" using k len_rms by simp
    then have "(int k + 1) * wl \<le> r * wl" using assms(2) by (simp add: mult_right_mono)
    then have "int (k * nat wl + nat wl) \<le> int (length s_pad)"
      unfolding rc of_nat_add of_nat_mult wl_nat by (simp add: algebra_simps)
    then have fits: "k * nat wl + nat wl \<le> length s_aux"
      unfolding of_nat_le_iff by (simp add: s_aux_def)
    have "s_rms ! k = np_mean (take (nat wl) (drop (k * nat wl) s_aux))"
      using k len_rms by (simp add: s_rms_def rows_def)
    also have "\<dots> = (\<Sum>i<nat wl. s_aux ! (k * nat wl + i)) / real (nat wl)"
      using fits sum_list_window [OF fits] by (simp add: np_mean_def)
    also have "(\<Sum>i<nat wl. s_aux ! (k * nat wl + i)) = (\<Sum>i<nat wl. (s_pad ! (k * nat wl + i)) ^ 2)"
      using fits by (intro sum.cong) (auto simp: s_aux_def)
    finally have "s_rms ! k = (\<Sum>i<nat wl. (s_pad ! (k * nat wl + i)) ^ 2) / real_of_int wl"
      using assms(2) by simp
    moreover have "time ! k = real k * real_of_int wl / fs + 0.5 * real_of_int wl / fs"
      using k by (simp add: time_def)
    ultimately show ?thesis by simp
  qed
  have "length time = length s_rms" by (simp add: time_def)
  with pad run count vals show ?thesis unfolding p_def by blast
qed

theorem energy_windowed_mean_square_witness:
  "[1, 2, 3 :: real] \<noteq> [] \<and> (0::int) < 2 \<and> (4::real) \<noteq> 0
   \<and> energy_windowed [1, 2, 3] 2 4 = Inr ([1/4, 3/4], [5/2, 13/2])"
proof -
  have ev: "energy_windowed [1, 2, 3] 2 4 = Inr ([1/4, 3/4], [5/2, 13/2])"
    by (simp add: energy_windowed_def np_pad_reflect_def reflect_index_def np_reshape_def
        np_mean_def py_int_def upt_rec Let_def)
  from energy_windowed_mean_square [of "[1, 2, 3]" 2 4]
  obtain s_pad time s_rms where
    "energy_windowed [1, 2, 3] 2 4 = Inr (time, s_rms)" by auto
  with ev show ?thesis by simp
qed

text \<open>
  C2. The signal \<open>[1, 2, 3, 4]\<close> has a length that is a multiple of \<open>wl = 2\<close>. The pad
  width of line 96 is \<open>2 - 4 % 2 = 2\<close>, not 0: the padded signal is
  \<open>[1, 2, 3, 4, 3, 2]\<close> and not the input, and \<open>energy_windowed\<close> returns three windows,
  the third made of reflected samples only.
\<close>

theorem energy_windowed_pads_full_window:
  "np_pad_reflect [1, 2, 3, 4 :: real] 0 (2 - int (length [1, 2, 3, 4 :: real]) mod 2)
     = Inr [1, 2, 3, 4, 3, 2]
   \<and> energy_windowed [1, 2, 3, 4] 2 1 = Inr ([1, 3, 5], [5/2, 25/2, 13/2])"
  by (simp add: energy_windowed_def np_pad_reflect_def reflect_index_def np_reshape_def
      np_mean_def py_int_def upt_rec Let_def)

section \<open>Pairing of onsets and offsets\<close>

lemma np_diff_Cons2: "np_diff (x # y # xs) = (y - x) # np_diff (y # xs)"
proof -
  have "[0..<Suc (length xs)] = 0 # map Suc [0..<length xs]"
    by (simp add: upt_conv_Cons map_Suc_upt del: upt_Suc)
  then show ?thesis by (simp add: np_diff_def comp_def del: upt_Suc)
qed

lemma np_diff_short: "np_diff [] = []" "np_diff [x] = []"
  by (simp_all add: np_diff_def)

lemma np_where_Cons: "np_where (c # cs) = (if c then [0] else []) @ map Suc (np_where cs)"
proof -
  have "[0..<Suc (length cs)] = 0 # map Suc [0..<length cs]"
    by (simp add: upt_conv_Cons map_Suc_upt del: upt_Suc)
  then show ?thesis by (simp add: np_where_def filter_map comp_def del: upt_Suc)
qed

lemma np_where_Nil: "np_where [] = []"
  by (simp add: np_where_def)

lemma rises_np:
  "map (\<lambda>i. i + k) (np_where (map (\<lambda>d. 0 < d) (np_diff (astype_int m)))) = rises k m"
proof (induction k m rule: rises.induct)
  case (1 k a b m)
  have "map (\<lambda>i. i + Suc k) (np_where (map (\<lambda>d. 0 < d) (np_diff (astype_int (b # m)))))
          = rises (Suc k) (b # m)"
    using 1 by simp
  then show ?case
    by (simp add: astype_int_def np_diff_Cons2 np_where_Cons comp_def)
qed (simp_all add: astype_int_def np_diff_short np_where_Nil)

lemma falls_np:
  "map (\<lambda>i. i + k) (np_where (map (\<lambda>d. d < 0) (np_diff (astype_int m)))) = falls k m"
proof (induction k m rule: falls.induct)
  case (1 k a b m)
  have "map (\<lambda>i. i + Suc k) (np_where (map (\<lambda>d. d < 0) (np_diff (astype_int (b # m)))))
          = falls (Suc k) (b # m)"
    using 1 by simp
  then show ?case
    by (simp add: astype_int_def np_diff_Cons2 np_where_Cons comp_def)
qed (simp_all add: astype_int_def np_diff_short np_where_Nil)


lemma rises_bounds: "i \<in> set (rises k m) \<Longrightarrow> k \<le> i"
  by (induction k m rule: rises.induct) (auto split: if_splits)

lemma falls_bounds: "i \<in> set (falls k m) \<Longrightarrow> k \<le> i"
  by (induction k m rule: falls.induct) (auto split: if_splits)

lemma chain_mask:
  assumes "\<And>i j. i < j \<Longrightarrow> j < N \<Longrightarrow> g i < (g j :: real)"
    and "\<forall>i \<in> set (rises k m) \<union> set (falls k m). i < N"
  shows "case m of [] \<Rightarrow> True
         | a # rest \<Rightarrow> if a then chain (map g (falls k m)) (map g (rises k m))
                        else chain (map g (rises k m)) (map g (falls k m))"
  using assms(2)
proof (induction k m rule: rises.induct)
  case (1 k a b m)
  have sub: "\<forall>i \<in> set (rises (Suc k) (b # m)) \<union> set (falls (Suc k) (b # m)). i < N"
    using "1.prems" by auto
  have ih: "if b then chain (map g (falls (Suc k) (b # m))) (map g (rises (Suc k) (b # m)))
            else chain (map g (rises (Suc k) (b # m))) (map g (falls (Suc k) (b # m)))"
    using "1.IH" [OF sub] by simp
  have later: "g k < g j"
    if "j \<in> set (rises (Suc k) (b # m)) \<union> set (falls (Suc k) (b # m))" for j
  proof -
    have "Suc k \<le> j" using that rises_bounds falls_bounds by blast
    moreover have "j < N" using that sub by blast
    ultimately show ?thesis using assms(1) [of k j] by simp
  qed
  show ?case
  proof (cases "a = b")
    case True
    then show ?thesis using ih by (cases b) simp_all
  next
    case False
    show ?thesis
    proof (cases a)
      case True
      then have b: "\<not> b" using False by simp
      have "case map g (rises (Suc k) (b # m)) of [] \<Rightarrow> True | y # rest \<Rightarrow> g k < y"
        using later by (cases "rises (Suc k) (b # m)") auto
      then show ?thesis using True b ih by simp
    next
      case a: False
      then have b: b using False by simp
      have "case map g (falls (Suc k) (b # m)) of [] \<Rightarrow> True | y # rest \<Rightarrow> g k < y"
        using later by (cases "falls (Suc k) (b # m)") auto
      then show ?thesis using a b ih by simp
    qed
  qed
qed simp_all

lemma chain_Cons_Cons:
  "chain (x # xs) (y # ys) = (x < y \<and> chain (y # ys) xs)"
  by simp

lemma chain_Cons_Nil: "chain (x # xs) [] = (xs = [])"
  by simp

lemma chain_lengths:
  "chain xs ys \<Longrightarrow>
     (length xs = length ys \<or> length xs = Suc (length ys))
   \<and> (ys \<noteq> [] \<longrightarrow> (length xs = length ys \<longrightarrow> last xs < last ys)
                 \<and> (length xs = Suc (length ys) \<longrightarrow> last ys < last xs))"
proof (induction xs ys rule: chain.induct)
  case (1 ys)
  then show ?case by simp
next
  case (2 x xs ys)
  show ?case
  proof (cases ys)
    case Nil
    then show ?thesis using "2.prems" by (simp only: chain_Cons_Nil) simp
  next
    case (Cons y ys')
    have xy: "x < y" and rest: "chain ys xs"
      using "2.prems" Cons by (simp_all only: chain_Cons_Cons)
    note ih = "2.IH" [OF rest]
    show ?thesis
    proof (cases xs)
      case Nil
      then have "ys' = []" using rest Cons by (simp only: chain_Cons_Nil)
      then show ?thesis using Nil Cons xy by simp
    next
      case xs: (Cons x' xs')
      then show ?thesis using ih Cons by (simp del: chain.simps) linarith
    qed
  qed
qed

lemma chain_hd: "chain xs ys \<Longrightarrow> ys \<noteq> [] \<Longrightarrow> hd xs < hd ys"
proof (cases xs)
  case Nil
  assume "chain xs ys" "ys \<noteq> []"
  then show ?thesis using Nil by simp
next
  case (Cons x xs')
  assume "chain xs ys" "ys \<noteq> []"
  then show ?thesis using Cons by (cases ys) simp_all
qed

lemma chain_append_both:
  "chain xs ys \<Longrightarrow>
     (length xs = Suc (length ys) \<and> last xs < z \<longrightarrow> chain xs (ys @ [z]))
   \<and> (length xs = length ys \<and> ys \<noteq> [] \<and> last ys < z \<longrightarrow> chain (xs @ [z]) ys)"
proof (induction xs ys rule: chain.induct)
  case (1 ys)
  then show ?case by simp
next
  case (2 x xs ys)
  show ?case
  proof (cases ys)
    case Nil
    then have "xs = []" using "2.prems" by (simp only: chain_Cons_Nil)
    then show ?thesis using Nil by simp
  next
    case (Cons y ys')
    have xy: "x < y" and rest: "chain ys xs"
      using "2.prems" Cons by (simp_all only: chain_Cons_Cons)
    note ih = "2.IH" [OF rest]
    have a: "chain (x # xs) (ys @ [z])" if "length (x # xs) = Suc (length ys)" "last (x # xs) < z"
    proof -
      have "xs \<noteq> []" using that(1) Cons by auto
      then have "last xs < z" using that(2) by simp
      then have "chain (ys @ [z]) xs" using ih that(1) \<open>xs \<noteq> []\<close> by simp
      then show ?thesis using xy Cons by simp
    qed
    have b: "chain ((x # xs) @ [z]) ys" if "length (x # xs) = length ys" "last ys < z"
    proof -
      have "chain ys (xs @ [z])" using ih that by simp
      then show ?thesis using xy Cons by simp
    qed
    show ?thesis using a b by blast
  qed
qed

lemma chain_append_last:
  "chain xs ys \<Longrightarrow> length xs = Suc (length ys) \<Longrightarrow> last xs < z \<Longrightarrow> chain xs (ys @ [z])"
  using chain_append_both by blast

lemma chain_paired:
  "chain xs ys \<Longrightarrow> length xs = length ys \<Longrightarrow>
     (\<forall>i<length xs. xs ! i < ys ! i) \<and> (\<forall>i. Suc i < length xs \<longrightarrow> ys ! i \<le> xs ! Suc i)"
proof (induction xs arbitrary: ys)
  case Nil
  then show ?case by simp
next
  case (Cons x xs)
  then obtain y ys' where ys: "ys = y # ys'" by (cases ys) auto
  have xy: "x < y" and rest: "chain (y # ys') xs" using Cons.prems ys by auto
  have ch: "chain xs ys'" using rest by simp
  have len: "length xs = length ys'" using Cons.prems ys by simp
  have nxt: "xs \<noteq> [] \<Longrightarrow> y < hd xs" using rest by (cases xs) auto
  note ih = Cons.IH [OF ch len]
  show ?case
  proof (intro conjI allI impI)
    fix i assume "i < length (x # xs)"
    then show "(x # xs) ! i < ys ! i" using ih xy ys by (cases i) auto
  next
    fix i assume "Suc i < length (x # xs)"
    then show "ys ! i \<le> (x # xs) ! Suc i"
      using ih nxt ys by (cases i) (auto simp: hd_conv_nth)
  qed
qed


lemma onset_times_rises:
  assumes "onset_times t seg = Inr onset"
  shows "onset = map (\<lambda>i. t ! i + hd t) (rises 0 seg)" and "\<forall>i \<in> set (rises 0 seg). i < length t"
proof -
  have idx: "np_where (map (\<lambda>d. 0 < d) (np_diff (astype_int seg))) = rises 0 seg"
    using rises_np [of 0 seg] by simp
  show "onset = map (\<lambda>i. t ! i + hd t) (rises 0 seg)"
    using assms unfolding onset_times_def idx take_at_def
    by (auto split: if_splits list.splits simp: comp_def)
  show "\<forall>i \<in> set (rises 0 seg). i < length t"
    using assms unfolding onset_times_def idx take_at_def
    by (auto split: if_splits list.splits simp: list_all_iff)
qed

lemma offset_times_falls:
  assumes "offset_times t seg = Inr offset"
  shows "offset = map (\<lambda>i. t ! i + hd t) (falls 0 seg)" and "\<forall>i \<in> set (falls 0 seg). i < length t"
proof -
  have idx: "np_where (map (\<lambda>d. d < 0) (np_diff (astype_int seg))) = falls 0 seg"
    using falls_np [of 0 seg] by simp
  show "offset = map (\<lambda>i. t ! i + hd t) (falls 0 seg)"
    using assms unfolding offset_times_def idx take_at_def
    by (auto split: if_splits list.splits simp: comp_def)
  show "\<forall>i \<in> set (falls 0 seg). i < length t"
    using assms unfolding offset_times_def idx take_at_def
    by (auto split: if_splits list.splits simp: list_all_iff)
qed

lemma edges_chain:
  assumes "sorted_wrt (<) t"
    and "onset_times t seg = Inr onset" and "offset_times t seg = Inr offset"
    and "onset \<noteq> []"
  shows "chain onset offset \<or> chain offset onset"
proof -
  define g where "g = (\<lambda>i. t ! i + hd t)"
  have mono: "g i < g j" if "i < j" "j < length t" for i j
    using sorted_wrt_nth_less [OF assms(1) that] by (simp add: g_def)
  have on: "onset = map g (rises 0 seg)" and off: "offset = map g (falls 0 seg)"
    using onset_times_rises(1) [OF assms(2)] offset_times_falls(1) [OF assms(3)]
    by (simp_all add: g_def)
  have inb: "\<forall>i \<in> set (rises 0 seg) \<union> set (falls 0 seg). i < length t"
    using onset_times_rises(2) [OF assms(2)] offset_times_falls(2) [OF assms(3)] by blast
  have "seg \<noteq> []" using assms(4) on by auto
  then obtain a rest where seg: "seg = a # rest" by (cases seg) auto
  have "if a then chain (map g (falls 0 seg)) (map g (rises 0 seg))
        else chain (map g (rises 0 seg)) (map g (falls 0 seg))"
    using chain_mask [of "length t" g 0 seg, OF mono inb] seg by simp
  then show ?thesis unfolding on off by (cases a) simp_all
qed

text \<open>
  Let the onsets and offsets be extracted from one mask over a strictly increasing time
  grid, both non-empty, and let \<open>tmin\<close> lie before the first offset and \<open>tmax\<close> after the
  last onset. Then \<open>corresp_onset_offset\<close> returns two sequences of equal length with
  \<open>onset[i] < offset[i]\<close> for every \<open>i\<close> and \<open>offset[i] \<le> onset[i+1]\<close> for every \<open>i\<close>.
\<close>

lemma corresp_onset_offset_paired:
  assumes "sorted_wrt (<) t"
    and "onset_times t seg = Inr onset" and "offset_times t seg = Inr offset"
    and "onset \<noteq> []" and "offset \<noteq> []"
    and "tmin < hd offset" and "last onset < tmax"
  shows "\<exists>onset1 offset1.
           corresp_onset_offset onset offset tmin tmax = Inr (onset1, offset1)
         \<and> length onset1 = length offset1
         \<and> (\<forall>i<length onset1. onset1 ! i < offset1 ! i)
         \<and> (\<forall>i. Suc i < length onset1 \<longrightarrow> offset1 ! i \<le> onset1 ! Suc i)"
proof -
  define onset1 where "onset1 = (if hd offset < hd onset then tmin # onset else onset)"
  define offset1 where "offset1 = (if last offset < last onset1 then offset @ [tmax] else offset)"
  have run: "corresp_onset_offset onset offset tmin tmax = Inr (onset1, offset1)"
    using assms(4,5) by (simp add: corresp_onset_offset_def onset1_def offset1_def Let_def)
  have last1: "last onset1 = last onset" using assms(4) by (simp add: onset1_def)
  have ch1: "chain onset1 offset"
    using edges_chain [OF assms(1-4)]
  proof
    assume c: "chain onset offset"
    then have "hd onset < hd offset" using chain_hd assms(5) by blast
    then show ?thesis using c by (simp add: onset1_def)
  next
    assume c: "chain offset onset"
    then have "hd offset < hd onset" using chain_hd assms(4) by blast
    moreover have "chain (tmin # onset) offset"
      using c assms(5,6) by (cases offset) simp_all
    ultimately show ?thesis by (simp add: onset1_def)
  qed
  note lens = chain_lengths [OF ch1]
  have ch2: "chain onset1 offset1 \<and> length onset1 = length offset1"
  proof (cases "length onset1 = length offset")
    case True
    then have "last onset1 < last offset" using lens assms(5) by blast
    then show ?thesis using ch1 True by (simp add: offset1_def)
  next
    case False
    then have suc: "length onset1 = Suc (length offset)" using lens by blast
    then have "last offset < last onset1" using lens assms(5) by blast
    moreover have "chain onset1 (offset @ [tmax])"
      using chain_append_last [OF ch1 suc] assms(7) last1 by simp
    ultimately show ?thesis using suc by (simp add: offset1_def)
  qed
  then show ?thesis using run chain_paired [of onset1 offset1] by blast
qed

text \<open>
  The time grid that \<open>energy_windowed\<close> returns: \<open>wl\<close> is positive, \<open>fs\<close> is not zero,
  the time of window \<open>k\<close> is \<open>k * wl / fs + wl * 0.5 / fs\<close>, and the number of windows times
  \<open>wl\<close> is the length of the signal plus the pad width of line 96.
\<close>

lemma rises_upper: "i \<in> set (rises k m) \<Longrightarrow> Suc i < k + length m"
  by (induction k m rule: rises.induct) (auto split: if_splits)

lemma falls_upper: "i \<in> set (falls k m) \<Longrightarrow> Suc i < k + length m"
  by (induction k m rule: falls.induct) (auto split: if_splits)

lemma energy_windowed_grid:
  assumes "energy_windowed s wl fs = Inr (t, s_rms)"
  shows "0 < wl" and "fs \<noteq> 0"
    and "t = map (\<lambda>k. real k * real_of_int wl / fs + real_of_int wl * 0.5 / fs) [0..<length t]"
    and "int (length t) * wl = int (length s) + (wl - int (length s) mod wl)"
proof -
  define p where "p = wl - int (length s) mod wl"
  have wl0: "wl \<noteq> 0" using assms by (auto simp: energy_windowed_def split: if_splits)
  obtain s_pad where pad: "np_pad_reflect s 0 p = Inr s_pad"
    using assms wl0 by (auto simp: energy_windowed_def p_def split: if_splits sum.splits)
  have p_nonneg: "0 \<le> p" using pad by (auto simp: np_pad_reflect_def split: if_splits)
  show wl_pos: "0 < wl"
  proof (rule ccontr)
    assume "\<not> 0 < wl"
    then have neg: "wl < 0" using wl0 by simp
    then have "wl < int (length s) mod wl" by (rule neg_mod_bound)
    then show False using p_nonneg by (simp add: p_def)
  qed
  have len_pad: "int (length s_pad) = int (length s) + p"
    using length_np_pad_reflect [OF pad] p_nonneg by simp
  define s_aux where "s_aux = map (\<lambda>x. x ^ 2) s_pad"
  define r where "r = int (length s_pad) div wl"
  have quot: "py_int (real (length s_aux) / real_of_int wl) = r"
    using py_int_quotient [OF wl_pos, of "length s_aux"] by (simp add: s_aux_def r_def)
  obtain rows where resh: "np_reshape s_aux r wl = Inr rows"
    using assms wl0 pad quot
    by (auto simp: energy_windowed_def p_def [symmetric] s_aux_def [symmetric] Let_def
        split: if_splits sum.splits)
  have rc: "r * wl = int (length s_pad)" and r_nonneg: "0 \<le> r"
    using resh by (auto simp: np_reshape_def s_aux_def split: if_splits)
  have rows_len: "length rows = nat r"
    using resh by (auto simp: np_reshape_def split: if_splits)
  have out: "fs \<noteq> 0 \<and> t = map (\<lambda>k. real k * real_of_int wl / fs + real_of_int wl * 0.5 / fs)
               [0..<length rows]"
    using assms wl0 pad quot resh
    by (auto simp: energy_windowed_def p_def [symmetric] s_aux_def [symmetric] Let_def
        split: if_splits)
  then show "fs \<noteq> 0" by simp
  have len_t: "length t = nat r" using out rows_len by simp
  show "t = map (\<lambda>k. real k * real_of_int wl / fs + real_of_int wl * 0.5 / fs) [0..<length t]"
    using out len_t rows_len by simp
  show "int (length t) * wl = int (length s) + (wl - int (length s) mod wl)"
    using rc r_nonneg len_pad by (simp add: len_t p_def)
qed

text \<open>
  The call of line 163, with \<open>tmin = 0\<close> and \<open>tmax = len(s)/fs\<close>, on the grid of
  \<open>energy_windowed\<close> with a positive \<open>fs\<close> and a smoothed series no longer than the grid:
  for every signal whose length is not a multiple of \<open>wl\<close>, every onset lies before
  \<open>len(s)/fs\<close>, every offset after 0, and the returned sequences have equal length,
  \<open>onset[i] < offset[i]\<close> and \<open>offset[i] \<le> onset[i+1]\<close>.
\<close>

lemma pairing_at_call_site:
  assumes ew: "energy_windowed s wl fs = Inr (t, s_rms)" and fs: "0 < fs"
    and len: "length s_cwt \<le> length t"
    and unaligned: "\<not> wl dvd int (length s)"
    and on: "onset_times t (segments_bin s_cwt th) = Inr onset"
    and off: "offset_times t (segments_bin s_cwt th) = Inr offset"
    and ne: "onset \<noteq> []" "offset \<noteq> []"
  shows "\<exists>onset1 offset1.
           corresp_onset_offset onset offset 0 (real (length s) / fs) = Inr (onset1, offset1)
         \<and> length onset1 = length offset1
         \<and> (\<forall>i<length onset1. onset1 ! i < offset1 ! i)
         \<and> (\<forall>i. Suc i < length onset1 \<longrightarrow> offset1 ! i \<le> onset1 ! Suc i)"
proof -
  note grid = energy_windowed_grid [OF ew]
  define seg where "seg = segments_bin s_cwt th"
  have seg_len: "length seg \<le> length t" using len by (simp add: seg_def segments_bin_def)
  have wl_pos: "0 < real_of_int wl" using grid(1) by simp
  have nth_t: "t ! i = real i * real_of_int wl / fs + real_of_int wl * 0.5 / fs"
    if "i < length t" for i
  proof -
    have "t ! i = map (\<lambda>k. real k * real_of_int wl / fs + real_of_int wl * 0.5 / fs)
                    [0..<length t] ! i"
      using grid(3) by simp
    then show ?thesis using that by simp
  qed
  have srt: "sorted_wrt (<) t"
    unfolding sorted_wrt_iff_nth_less
  proof (intro allI impI)
    fix i j assume ij: "i < j" "j < length t"
    have "real i * real_of_int wl / fs < real j * real_of_int wl / fs"
      using ij(1) wl_pos fs by (simp add: divide_strict_right_mono)
    then show "t ! i < t ! j" using ij by (simp add: nth_t)
  qed
  have edge: "t ! i + hd t = real (Suc i) * real_of_int wl / fs
              \<and> 0 < t ! i + hd t \<and> t ! i + hd t < real (length s) / fs"
    if i: "Suc i < length seg" for i
  proof -
    have it: "Suc i < length t" using i seg_len by simp
    then have t_ne: "t \<noteq> []" by auto
    then have "0 < length t" by simp
    then have "t ! 0 = real_of_int wl * 0.5 / fs" using nth_t [of 0] by simp
    then have hd: "hd t = real_of_int wl * 0.5 / fs" using t_ne by (simp add: hd_conv_nth)
    have val: "t ! i + hd t = real (Suc i) * real_of_int wl / fs"
      using it nth_t [of i] hd by (simp add: add_divide_distrib distrib_right)
    have pos: "0 < real (Suc i) * real_of_int wl / fs" using wl_pos fs by simp
    have "0 < int (length s) mod wl"
      using unaligned grid(1) by (simp add: dvd_eq_mod_eq_0 order_less_le)
    then have "int (length t) * wl - wl < int (length s)" using grid(4) by simp
    moreover have "int (Suc i) * wl \<le> (int (length t) - 1) * wl"
      using it grid(1) by (intro mult_right_mono) simp_all
    ultimately have "int (Suc i) * wl < int (length s)" by (simp add: algebra_simps)
    then have "real_of_int (int (Suc i) * wl) < real_of_int (int (length s))"
      by (simp only: of_int_less_iff)
    then have "real (Suc i) * real_of_int wl < real (length s)" by simp
    then have "real (Suc i) * real_of_int wl / fs < real (length s) / fs"
      using fs by (simp add: divide_strict_right_mono)
    then show ?thesis using val pos by simp
  qed
  have on_set: "x < real (length s) / fs" if "x \<in> set onset" for x
  proof -
    have "onset = map (\<lambda>i. t ! i + hd t) (rises 0 seg)"
      using onset_times_rises(1) [OF on] by (simp add: seg_def)
    then have "x \<in> (\<lambda>i. t ! i + hd t) ` set (rises 0 seg)" using that by simp
    then obtain i where "i \<in> set (rises 0 seg)" "x = t ! i + hd t" by blast
    then show ?thesis using edge [of i] rises_upper [of i 0 seg] by simp
  qed
  have off_set: "0 < x" if "x \<in> set offset" for x
  proof -
    have "offset = map (\<lambda>i. t ! i + hd t) (falls 0 seg)"
      using offset_times_falls(1) [OF off] by (simp add: seg_def)
    then have "x \<in> (\<lambda>i. t ! i + hd t) ` set (falls 0 seg)" using that by simp
    then obtain i where "i \<in> set (falls 0 seg)" "x = t ! i + hd t" by blast
    then show ?thesis using edge [of i] falls_upper [of i 0 seg] by simp
  qed
  have "0 < hd offset" using off_set ne(2) by simp
  moreover have "last onset < real (length s) / fs" using on_set ne(1) by simp
  ultimately show ?thesis
    using corresp_onset_offset_paired [OF srt on off ne] by blast
qed

text \<open>
  C4. After \<open>corresp_onset_offset\<close> the sequences should have equal length with
  \<open>onset[i] < offset[i]\<close> and \<open>offset[i] \<le> onset[i+1]\<close>. On a signal whose length is a
  multiple of \<open>wl\<close> the code breaks this. A signal of 4 samples at \<open>fs = 1\<close> with \<open>wl = 2\<close>
  is padded by line 96 to 6 samples, so the time grid is \<open>[1, 3, 5]\<close> while
  \<open>tmax = len(s)/fs = 4\<close>. On the mask \<open>[True, False, True]\<close> the only onset is
  \<open>t[1] + t[0] = 4\<close>, which is \<open>tmax\<close>: \<open>corresp_onset_offset\<close> returns \<open>([0, 4], [2, 4])\<close>,
  the table has the row with onset 4 and offset 4, and \<open>onset[1] < offset[1]\<close> does not hold.
\<close>

theorem corresp_onset_offset_empty_interval:
  "sorted_wrt (<) [1, 3, 5 :: real]
   \<and> energy_windowed [0, 0, 0, 0] 2 1 = Inr ([1, 3, 5], [0, 0, 0])
   \<and> segments_bin [1, 0, 1] 0 = [True, False, True]
   \<and> onset_times [1, 3, 5] [True, False, True] = Inr [4]
   \<and> offset_times [1, 3, 5] [True, False, True] = Inr [2]
   \<and> corresp_onset_offset [4] [2] 0 (real (length [0, 0, 0, 0 :: real]) / 1) = Inr ([0, 4], [2, 4])
   \<and> \<not> ([0, 4 :: real] ! 1 < [2, 4] ! 1)
   \<and> find_rois_cwt_detect [1, 3, 5] [1, 0, 1] [0, 0, 0, 0] 1 (1/10, 2/5) 0 False False None
       = Inr (DataFrame [''onset'', ''fmin'', ''offset'', ''fmax'']
                [[0, 1/10, 2, 2/5], [4, 1/10, 4, 2/5]], [])"
proof -
  have ew: "energy_windowed [0, 0, 0, 0] 2 1 = Inr ([1, 3, 5], [0, 0, 0])"
    by (simp add: energy_windowed_def np_pad_reflect_def reflect_index_def np_reshape_def
        np_mean_def py_int_def upt_rec Let_def)
  have seg: "segments_bin [1, 0, 1] 0 = [True, False, True]"
    by (simp add: segments_bin_def)
  have on: "onset_times [1, 3, 5] [True, False, True] = Inr [4]"
    by (simp add: onset_times_def take_at_def np_where_def np_diff_def astype_int_def upt_rec)
  have off: "offset_times [1, 3, 5] [True, False, True] = Inr [2]"
    by (simp add: offset_times_def take_at_def np_where_def np_diff_def astype_int_def upt_rec)
  have c: "corresp_onset_offset [4] [2] 0 (real (length [0, 0, 0, 0 :: real]) / 1)
             = Inr ([0, 4], [2, 4])"
    by (simp add: corresp_onset_offset_def)
  have rnd: "np_round5 0 = 0" "np_round5 2 = 2" "np_round5 4 = 4"
    by (simp_all add: np_round5_def py_round_def Let_def)
  have run: "find_rois_cwt_detect [1, 3, 5] [1, 0, 1] [0, 0, 0, 0] 1 (1/10, 2/5) 0 False False None
       = Inr (DataFrame [''onset'', ''fmin'', ''offset'', ''fmax'']
                [[0, 1/10, 2, 2/5], [4, 1/10, 4, 2/5]], [])"
    using c by (simp add: find_rois_cwt_detect_def seg on off rnd Let_def)
  show ?thesis using ew seg on off c run by simp
qed

section \<open>Edge extraction and threshold\<close>

lemma length_np_diff: "length (np_diff a) = length a - 1"
  by (simp add: np_diff_def)

lemma nth_np_diff: "i < length a - 1 \<Longrightarrow> np_diff a ! i = a ! Suc i - a ! i"
  by (simp add: np_diff_def)

lemma np_where_diff_step:
  assumes "\<And>d. d \<in> {-1, 0, 1} \<Longrightarrow> sel d = (d = step)"
  shows "np_where (map sel (np_diff (astype_int (segments_bin s_cwt th))))
           = filter (\<lambda>i. mask_encoding s_cwt th (Suc i) - mask_encoding s_cwt th i = step)
               [0..<length s_cwt - 1]"
proof -
  have len: "length (map sel (np_diff (astype_int (segments_bin s_cwt th)))) = length s_cwt - 1"
    by (simp add: length_np_diff astype_int_def segments_bin_def)
  have pt: "map sel (np_diff (astype_int (segments_bin s_cwt th))) ! i
              = (mask_encoding s_cwt th (Suc i) - mask_encoding s_cwt th i = step)"
    if i: "i < length s_cwt - 1" for i
  proof -
    have "np_diff (astype_int (segments_bin s_cwt th)) ! i
            = mask_encoding s_cwt th (Suc i) - mask_encoding s_cwt th i"
      using i by (simp add: nth_np_diff astype_int_def segments_bin_def mask_encoding_def)
    moreover have "mask_encoding s_cwt th (Suc i) - mask_encoding s_cwt th i \<in> {-1, 0, 1}"
      by (simp add: mask_encoding_def)
    ultimately show ?thesis using i assms by (simp add: length_np_diff astype_int_def segments_bin_def)
  qed
  show ?thesis
    unfolding np_where_def len
    by (rule filter_cong) (simp_all add: pt)
qed

lemma take_at_in_range:
  assumes "\<forall>i \<in> set idx. i < length t"
  shows "take_at t idx = Inr (map (\<lambda>i. t ! i) idx)"
  using assms by (simp add: take_at_def list_all_iff)

text \<open>
  C8. The mask is the strict comparison \<open>s_cwt[i] > th\<close>. When \<open>t\<close> is not empty and
  covers the indices of the forward difference of the mask, the onsets that the code
  computes are the values \<open>t[i] + t[0]\<close> at the indices where the forward difference of
  the integer encoding of the mask equals \<open>+1\<close>, in ascending order of \<open>i\<close>, and the offsets
  those where it equals \<open>-1\<close>.
\<close>

theorem edges_as_specified:
  assumes "t \<noteq> []" and "length s_cwt \<le> Suc (length t)"
  shows "length (segments_bin s_cwt th) = length s_cwt
       \<and> (\<forall>i<length s_cwt. segments_bin s_cwt th ! i = (th < s_cwt ! i))
       \<and> onset_times t (segments_bin s_cwt th) = Inr (transition_times t s_cwt th 1)
       \<and> offset_times t (segments_bin s_cwt th) = Inr (transition_times t s_cwt th (- 1))"
proof -
  obtain t0 rest where t: "t = t0 # rest" using assms(1) by (cases t) auto
  have rng: "\<forall>i \<in> set (filter P [0..<length s_cwt - 1]). i < length t" for P
    using assms(2) by auto
  have up: "np_where (map (\<lambda>d. 0 < d) (np_diff (astype_int (segments_bin s_cwt th))))
              = filter (\<lambda>i. mask_encoding s_cwt th (Suc i) - mask_encoding s_cwt th i = 1)
                  [0..<length s_cwt - 1]"
    by (rule np_where_diff_step) auto
  have dn: "np_where (map (\<lambda>d. d < 0) (np_diff (astype_int (segments_bin s_cwt th))))
              = filter (\<lambda>i. mask_encoding s_cwt th (Suc i) - mask_encoding s_cwt th i = - 1)
                  [0..<length s_cwt - 1]"
    by (rule np_where_diff_step) auto
  have on: "onset_times t (segments_bin s_cwt th) = Inr (transition_times t s_cwt th 1)"
    unfolding onset_times_def up take_at_in_range [OF rng] transition_times_def
    by (simp add: t comp_def)
  have off: "offset_times t (segments_bin s_cwt th) = Inr (transition_times t s_cwt th (- 1))"
    unfolding offset_times_def dn take_at_in_range [OF rng] transition_times_def
    by (simp add: t comp_def)
  show ?thesis using on off by (simp add: segments_bin_def)
qed

theorem edges_as_specified_witness:
  "[1, 2, 3, 4, 5 :: real] \<noteq> [] \<and> length [0, 2, 1, 2, 0 :: real] \<le> Suc (length [1, 2, 3, 4, 5 :: real])
   \<and> onset_times [1, 2, 3, 4, 5] (segments_bin [0, 2, 1, 2, 0] (3/2)) = Inr [2, 4]
   \<and> offset_times [1, 2, 3, 4, 5] (segments_bin [0, 2, 1, 2, 0] (3/2)) = Inr [3, 5]"
  using edges_as_specified [of "[1, 2, 3, 4, 5]" "[0, 2, 1, 2, 0]" "3/2"]
  by (simp add: transition_times_def mask_encoding_def upt_rec)

text \<open>
  C3, as the claim states it, fails. On the series \<open>[0, 2, 1, 2, 0]\<close> the threshold
  \<open>1/2\<close> gives one onset and one offset, the threshold \<open>3/2\<close> two of each: the dip
  between the two peaks splits one active stretch into two.
\<close>

theorem threshold_raise_adds_pair:
  "(1/2 :: real) \<le> 3/2
   \<and> onset_times [1, 2, 3, 4, 5] (segments_bin [0, 2, 1, 2, 0] (1/2)) = Inr [2]
   \<and> offset_times [1, 2, 3, 4, 5] (segments_bin [0, 2, 1, 2, 0] (1/2)) = Inr [5]
   \<and> onset_times [1, 2, 3, 4, 5] (segments_bin [0, 2, 1, 2, 0] (3/2)) = Inr [2, 4]
   \<and> offset_times [1, 2, 3, 4, 5] (segments_bin [0, 2, 1, 2, 0] (3/2)) = Inr [3, 5]
   \<and> \<not> (length [2, 4 :: real] \<le> length [2 :: real])"
  by (simp add: onset_times_def offset_times_def segments_bin_def take_at_def np_where_def
      np_diff_def astype_int_def upt_rec)

text \<open>
  C3, as the code has it. Raising the threshold never activates a sample: every sample
  of the mask that is active under \<open>th2\<close> is active under \<open>th1 \<le> th2\<close>, and the number of
  active samples does not increase.
\<close>

theorem threshold_raise_shrinks_mask:
  assumes "th1 \<le> th2"
  shows "(\<forall>i<length s_cwt. segments_bin s_cwt th2 ! i \<longrightarrow> segments_bin s_cwt th1 ! i)
       \<and> length (filter id (segments_bin s_cwt th2)) \<le> length (filter id (segments_bin s_cwt th1))"
proof -
  have "length (filter id (segments_bin s_cwt th2)) \<le> length (filter id (segments_bin s_cwt th1))"
    using assms by (induction s_cwt) (auto simp: segments_bin_def)
  then show ?thesis using assms by (auto simp: segments_bin_def)
qed

theorem threshold_raise_shrinks_mask_witness:
  "(1/2 :: real) \<le> 3/2
   \<and> segments_bin [0, 2, 1, 2, 0] (3/2) = [False, True, False, True, False]
   \<and> segments_bin [0, 2, 1, 2, 0] (1/2) = [False, True, True, True, False]"
  using threshold_raise_shrinks_mask [of "1/2" "3/2" "[0, 2, 1, 2, 0]"]
  by (simp add: segments_bin_def)

section \<open>The band filter\<close>

text \<open>
  C9. The expression statement of line 37 changes nothing: \<open>sinc\<close> and the variant
  without it return the same result, or raise the same exception, on every input.
\<close>

theorem sinc_rounding_is_dead:
  "sinc lib s cutoff fs atten transition_bw bandpass
     = sinc_without_rounding lib s cutoff fs atten transition_bw bandpass"
  by (simp add: sinc_def sinc_without_rounding_def Let_def split: sum.splits prod.splits)

text \<open>
  C1, as the claim states it, fails. \<open>sinc\<close> has no test of the band or of the
  transition width. On the band \<open>(3000, 1000)\<close> the failure is the ValueError of the
  library's \<open>firwin\<close>, not an InvalidBandError; with a transition fraction of \<open>-200\<close> on
  the band \<open>(1000, 3000)\<close> the width is negative, the library calls of the stand-in accept
  their arguments, and \<open>sinc\<close> returns the filtered signal.
\<close>

theorem sinc_raises_no_InvalidBandError:
  "(1000 :: real) \<le> 3000
   \<and> sinc stand_in_lib [1, 2, 3] (3000, 1000) 44100 80 (5/100) True = Inl ValueError
   \<and> ValueError \<noteq> InvalidBandError
   \<and> (- 200) * (3000 - 1000) \<le> (0 :: real)
   \<and> sinc stand_in_lib [1, 2, 3] (1000, 3000) 44100 80 (- 200) True = Inr [1, 2, 3]"
  by (simp add: sinc_def stand_in_lib_def Let_def)

text \<open>
  C1, as the code has it. \<open>sinc\<close> raises exactly when \<open>0.5*fs\<close> is zero
  (ZeroDivisionError) or when one of its calls to \<open>kaiserord\<close>, \<open>firwin\<close> and \<open>lfilter\<close>
  raises, and then with the exception of that call; the width it hands to \<open>kaiserord\<close> is
  \<open>(cutoff[1] - cutoff[0]) * transition_bw / (0.5*fs)\<close>, unchanged.
\<close>

theorem sinc_fails_as_library_fails:
  "sinc lib s cutoff fs atten transition_bw bandpass = Inl e \<longleftrightarrow>
     (0.5 * fs = 0 \<and> e = ZeroDivisionError)
   \<or> (0.5 * fs \<noteq> 0 \<and>
        (kaiserord lib atten ((snd cutoff - fst cutoff) * transition_bw / (0.5 * fs)) = Inl e
       \<or> (\<exists>numtaps beta.
             kaiserord lib atten ((snd cutoff - fst cutoff) * transition_bw / (0.5 * fs))
               = Inr (numtaps, beta)
           \<and> (firwin lib numtaps cutoff beta False (0.5 * fs) (\<not> bandpass) = Inl e
              \<or> (\<exists>taps. firwin lib numtaps cutoff beta False (0.5 * fs) (\<not> bandpass) = Inr taps
                        \<and> lfilter lib taps 1 s = Inl e)))))"
  by (auto simp: sinc_def Let_def split: sum.splits prod.splits)

theorem sinc_fails_as_library_fails_witness:
  "sinc stand_in_lib [1, 2, 3] (3000, 1000) 44100 80 (5/100) True = Inl ValueError
   \<and> firwin stand_in_lib 1 (3000, 1000) 0 False (0.5 * 44100) (\<not> True) = Inl ValueError"
proof -
  have f: "firwin stand_in_lib 1 (3000, 1000) 0 False (0.5 * 44100) (\<not> True) = Inl ValueError"
    by (simp add: stand_in_lib_def)
  have k: "kaiserord stand_in_lib 80 ((snd (3000, 1000) - fst (3000, 1000)) * (5/100) / (0.5 * 44100))
             = Inr (1, 0)"
    by (simp add: stand_in_lib_def)
  have "sinc stand_in_lib [1, 2, 3] (3000, 1000) 44100 80 (5/100) True = Inl ValueError"
    unfolding sinc_fails_as_library_fails [of stand_in_lib "[1, 2, 3]" "(3000, 1000)" 44100 80 "5/100" True ValueError]
    using f k by simp
  then show ?thesis using f by simp
qed

section \<open>No detection, and the index accesses of corresp_onset_offset\<close>

text \<open>
  C6. When the onsets or the offsets extracted on lines 150 and 151 are empty,
  \<open>find_rois_cwt\<close> returns, and the table it returns has no row (and no column); it
  prints the warning, writes the file without a header if \<open>save_df\<close> is set, and draws the
  figure if \<open>display\<close> is set.
\<close>

theorem find_rois_cwt_no_detection:
  assumes "find_rois_cwt_smooth lib s fs flims tlen = Inr (t, s_cwt)"
    and "onset_times t (segments_bin s_cwt th) = Inr onset"
    and "offset_times t (segments_bin s_cwt th) = Inr offset"
    and "onset = [] \<or> offset = []"
  shows "find_rois_cwt lib s fs flims tlen th display save_df savefilename =
           Inr (DataFrame [] [],
                Print ''Warning: No detection found''
                # (if save_df
                   then [ToCsv (case savefilename of None \<Rightarrow> ''rois.csv'' | Some f \<Rightarrow> f) False
                           (DataFrame [] [])]
                   else [])
                @ (if display then [PlotShow] else []))"
  using assms by (simp add: find_rois_cwt_def find_rois_cwt_detect_def Let_def)

lemma reflect_index_less:
  assumes "0 < n"
  shows "reflect_index n p < n"
proof (cases "n \<le> 1")
  case True
  then show ?thesis using assms by (simp add: reflect_index_def)
next
  case False
  define period where "period = 2 * (int n - 1)"
  define m where "m = p mod period"
  have "0 < period" using False by (simp add: period_def)
  then have "0 \<le> m" and "m < period" by (simp_all add: m_def)
  then have "nat (if m < int n then m else period - m) < n"
    using False by (auto simp: period_def)
  then show ?thesis
    using False unfolding reflect_index_def Let_def period_def [symmetric] m_def [symmetric]
    by simp
qed

lemma smooth_run:
  "find_rois_cwt_smooth stand_in_lib [0, 0, 0] 1 (1/10, 2/5) 40 = Inr ([1, 3], [0, 0])"
proof -
  have s: "sinc stand_in_lib [0, 0, 0] (1/10, 2/5) 1 80 0.8 True = Inr [0, 0, 0]"
    by (simp add: sinc_def stand_in_lib_def Let_def)
  have w: "window_length (40 * 1 * 0.05) = Inr 2"
    by (simp add: window_length_def)
  have e: "energy_windowed [0, 0, 0] (py_int 2) 1 = Inr ([1, 3], [0, 0])"
    by (simp add: energy_windowed_def np_pad_reflect_def reflect_index_def np_reshape_def
        np_mean_def py_int_def upt_rec Let_def)
  have r: "py_round (40 * 1 / 2 / 2) = 10"
    by (simp add: py_round_def Let_def)
  have p: "np_pad_reflect [0, 0 :: real] (10 * 5) (10 * 5) = Inr (replicate 102 0)"
  proof -
    have z: "[0, 0 :: real] ! reflect_index (length [0, 0 :: real]) q = 0" for q
      using reflect_index_less [of "length [0, 0 :: real]" q] by (simp add: nth_Cons')
    have n: "nat (10 * 5 + int (length [0, 0 :: real]) + 10 * 5) = 102" by simp
    show ?thesis
      unfolding np_pad_reflect_def n z map_replicate_const by simp
  qed
  have c: "cwt_ricker stand_in_lib (replicate 102 0) 10 = Inr (replicate 102 0)"
    by (simp add: stand_in_lib_def)
  have sl: "py_slice (replicate 102 (0::real)) (10 * 5) (int (length (replicate 102 (0::real))) - 10 * 5) = [0, 0]"
    by (simp add: py_slice_def Let_def numeral_eq_Suc)
  show ?thesis
    unfolding find_rois_cwt_smooth_def s sum.case w e prod.case Let_def r p c sl ..
qed

theorem find_rois_cwt_no_detection_witness:
  "find_rois_cwt_smooth stand_in_lib [0, 0, 0] 1 (1/10, 2/5) 40 = Inr ([1, 3], [0, 0])
   \<and> onset_times [1, 3] (segments_bin [0, 0] 0) = Inr []
   \<and> offset_times [1, 3] (segments_bin [0, 0] 0) = Inr []
   \<and> find_rois_cwt stand_in_lib [0, 0, 0] 1 (1/10, 2/5) 40 0 False False None
       = Inr (DataFrame [] [], [Print ''Warning: No detection found''])"
proof -
  have on: "onset_times [1, 3] (segments_bin [0, 0] 0) = Inr []"
    by (simp add: onset_times_def segments_bin_def take_at_def np_where_def np_diff_def
        astype_int_def upt_rec)
  have off: "offset_times [1, 3] (segments_bin [0, 0] 0) = Inr []"
    by (simp add: offset_times_def segments_bin_def take_at_def np_where_def np_diff_def
        astype_int_def upt_rec)
  show ?thesis
    using find_rois_cwt_no_detection [OF smooth_run on off, of False False None] smooth_run on off
    by simp
qed

text \<open>
  With non-empty onsets and offsets the rows of the table are made from the sequences
  that \<open>corresp_onset_offset\<close> returns for \<open>tmin = 0\<close> and \<open>tmax = len(s)/fs\<close>.
\<close>

lemma find_rois_cwt_detect_rows:
  assumes "onset_times t (segments_bin s_cwt th) = Inr onset"
    and "offset_times t (segments_bin s_cwt th) = Inr offset"
    and "onset \<noteq> []" and "offset \<noteq> []" and "fs \<noteq> 0"
    and "corresp_onset_offset onset offset 0 (real (length s) / fs) = Inr (onset1, offset1)"
    and "length onset1 = length offset1"
  shows "\<exists>effects.
           find_rois_cwt_detect t s_cwt s fs flims th display save_df savefilename =
             Inr (DataFrame [''onset'', ''fmin'', ''offset'', ''fmax'']
                    (map (\<lambda>(a, b). [np_round5 a, fst flims, np_round5 b, snd flims])
                       (zip onset1 offset1)),
                  effects)"
  using assms by (simp add: find_rois_cwt_detect_def Let_def)

text \<open>
  C10. \<open>corresp_onset_offset\<close> raises IndexError when one of its sequences is empty and
  returns when both are non-empty; once lines 150 and 151 have produced the onsets and
  the offsets, \<open>find_rois_cwt\<close> raises no IndexError, since it calls
  \<open>corresp_onset_offset\<close> only on the branch where both sequences are non-empty.
\<close>

theorem corresp_onset_offset_index_guard:
  "(onset = [] \<or> offset = [] \<longrightarrow> corresp_onset_offset onset offset tmin tmax = Inl IndexError)
   \<and> (onset \<noteq> [] \<and> offset \<noteq> [] \<longrightarrow> (\<exists>r. corresp_onset_offset onset offset tmin tmax = Inr r))
   \<and> (onset_times t (segments_bin s_cwt th) = Inr onset
        \<and> offset_times t (segments_bin s_cwt th) = Inr offset
      \<longrightarrow> find_rois_cwt_detect t s_cwt s fs flims th display save_df savefilename
            \<noteq> Inl IndexError)"
proof (intro conjI impI)
  assume "onset = [] \<or> offset = []"
  then show "corresp_onset_offset onset offset tmin tmax = Inl IndexError"
    by (simp add: corresp_onset_offset_def)
next
  assume "onset \<noteq> [] \<and> offset \<noteq> []"
  then show "\<exists>r. corresp_onset_offset onset offset tmin tmax = Inr r"
    by (simp add: corresp_onset_offset_def Let_def)
next
  assume ex: "onset_times t (segments_bin s_cwt th) = Inr onset
              \<and> offset_times t (segments_bin s_cwt th) = Inr offset"
  show "find_rois_cwt_detect t s_cwt s fs flims th display save_df savefilename \<noteq> Inl IndexError"
  proof (cases "onset = [] \<or> offset = []")
    case True
    then show ?thesis using ex by (simp add: find_rois_cwt_detect_def Let_def)
  next
    case False
    then obtain r where "corresp_onset_offset onset offset 0 (real (length s) / fs) = Inr r"
      by (simp add: corresp_onset_offset_def Let_def)
    then show ?thesis using ex False
      by (cases r) (simp add: find_rois_cwt_detect_def Let_def)
  qed
qed

theorem corresp_onset_offset_index_guard_witness:
  "corresp_onset_offset [] [2] 0 5 = Inl IndexError
   \<and> corresp_onset_offset [4] [2] 0 5 = Inr ([0, 4], [2, 5])
   \<and> onset_times [1, 3, 5] (segments_bin [1, 0, 1] 0) = Inr [4]
   \<and> offset_times [1, 3, 5] (segments_bin [1, 0, 1] 0) = Inr [2]
   \<and> find_rois_cwt_detect [1, 3, 5] [1, 0, 1] [0, 0, 0, 0, 0] 1 (1/10, 2/5) 0 False False None
       = Inr (DataFrame [''onset'', ''fmin'', ''offset'', ''fmax'']
                [[0, 1/10, 2, 2/5], [4, 1/10, 5, 2/5]], [])"
proof -
  have on: "onset_times [1, 3, 5] (segments_bin [1, 0, 1] 0) = Inr [4]"
    by (simp add: onset_times_def segments_bin_def take_at_def np_where_def np_diff_def
        astype_int_def upt_rec)
  have off: "offset_times [1, 3, 5] (segments_bin [1, 0, 1] 0) = Inr [2]"
    by (simp add: offset_times_def segments_bin_def take_at_def np_where_def np_diff_def
        astype_int_def upt_rec)
  have c: "corresp_onset_offset [4] [2] 0 5 = Inr ([0, 4], [2, 5])"
    by (simp add: corresp_onset_offset_def)
  have rnd: "np_round5 0 = 0" "np_round5 2 = 2" "np_round5 4 = 4" "np_round5 5 = 5"
    by (simp_all add: np_round5_def py_round_def Let_def)
  have run: "find_rois_cwt_detect [1, 3, 5] [1, 0, 1] [0, 0, 0, 0, 0] 1 (1/10, 2/5) 0 False False None
       = Inr (DataFrame [''onset'', ''fmin'', ''offset'', ''fmax'']
                [[0, 1/10, 2, 2/5], [4, 1/10, 5, 2/5]], [])"
    by (simp add: find_rois_cwt_detect_def on off c rnd Let_def)
  show ?thesis
    using corresp_onset_offset_index_guard [of "[]" "[2]" 0 5 "[]" "[]" 0]
          corresp_onset_offset_index_guard [of "[4]" "[2]" 0 5 "[1, 3, 5]" "[1, 0, 1]" 0]
          on off c run
    by simp
qed

end
